theory Spec2Isabelle
  imports Main "HOL-Library.Multiset"
begin

section \<open>JavaScript values of a request body\<close>

text \<open>
  The route handlers read \<^verbatim>\<open>request.body.handle\<close>, \<^verbatim>\<open>.password\<close>, \<^verbatim>\<open>.code\<close> and
  \<^verbatim>\<open>.newPassword\<close> from a parsed JSON body. A field is absent (\<open>JUndefined\<close>) or holds
  a JSON primitive. Numbers are modelled as integers; objects and arrays are not modelled.
  The handlers test the fields with \<^verbatim>\<open>!x\<close> and compare them with \<^verbatim>\<open>!==\<close>, which on
  primitives is inequality of the values.
\<close>

datatype jsval = JUndefined | JNull | JBool bool | JNum int | JStr string

fun truthy :: "jsval \<Rightarrow> bool" where
  "truthy JUndefined = False"
| "truthy JNull = False"
| "truthy (JBool b) = b"
| "truthy (JNum n) = (n \<noteq> 0)"
| "truthy (JStr s) = (s \<noteq> [])"

section \<open>The recovery code: \<^verbatim>\<open>String(crypto.randomInt(1000, 9999))\<close>\<close>

text \<open>
  \<^verbatim>\<open>String(n)\<close> of an integer is its decimal numeral, with a minus sign when negative.
\<close>

definition digit_char :: "nat \<Rightarrow> char" where
  "digit_char d = ''0123456789'' ! d"

function digits10 :: "nat \<Rightarrow> string" where
  "digits10 n = (if n < 10 then [digit_char n] else digits10 (n div 10) @ [digit_char (n mod 10)])"
  by pat_completeness auto
termination
  by (relation "measure (\<lambda>n. n)") auto

declare digits10.simps [simp del]

definition String_js :: "int \<Rightarrow> string" where
  "String_js n = (if n < 0 then CHR ''-'' # digits10 (nat (- n)) else digits10 (nat n))"

text \<open>
  \<^verbatim>\<open>crypto.randomInt(min, max)\<close> of Node.js returns an integer \<open>n\<close> with
  \<open>min \<le> n < max\<close>: the upper bound is exclusive. Node draws a 48-bit value \<open>x\<close> from
  the secure source, rejects the draws of the incomplete last block, and returns
  \<open>x mod (max - min) + min\<close>. The accepted draw \<open>x\<close> is the model's entropy input.
\<close>

definition randomInt :: "int \<Rightarrow> int \<Rightarrow> nat \<Rightarrow> int" where
  "randomInt lo hi x = int (x mod nat (hi - lo)) + lo"

text \<open>Line 132 of the route file: the code generated by recovery step 1.\<close>

definition mfaCode_of :: "nat \<Rightarrow> string" where
  "mfaCode_of x = String_js (randomInt 1000 9999 x)"

section \<open>Collaborators of the route file\<close>

subsection \<open>Identity records and the persistent store\<close>

text \<open>
  The \<^verbatim>\<open>User\<close> records of \<^verbatim>\<open>users.js\<close>, with the fields the routes read.
  \<open>password\<close> is the stored hash and \<open>salt\<close> its salt; an empty \<open>password\<close> is
  falsy in JavaScript. \<open>created\<close> may be missing (\<^verbatim>\<open>x.created ?? 0\<close>).
\<close>

record user =
  handle :: string
  name :: string
  created :: "int option"
  password :: string
  salt :: string
  enabled :: bool
  uid :: string

text \<open>
  \<^verbatim>\<open>node-persist\<close>: a keyed store whose \<^verbatim>\<open>values(filter)\<close> lists the stored values
  in the store's order, so the store is an association list with one entry per key.
\<close>

type_synonym storage = "(string \<times> user) list"

definition getItem :: "storage \<Rightarrow> string \<Rightarrow> user option" where
  "getItem kvs k = map_of kvs k"

fun setItem :: "string \<Rightarrow> user \<Rightarrow> storage \<Rightarrow> storage" where
  "setItem k v [] = [(k, v)]"
| "setItem k v ((k', v') # kvs) = (if k' = k then (k, v) # kvs else (k', v') # setItem k v kvs)"

definition startsWith :: "string \<Rightarrow> string \<Rightarrow> bool" where
  "startsWith s p = (take (length p) s = p)"

definition values_where :: "(string \<Rightarrow> bool) \<Rightarrow> storage \<Rightarrow> user list" where
  "values_where f kvs = map snd (filter (\<lambda>kv. f (fst kv)) kvs)"

text \<open>
  What the route file imports and this development takes as parameters: \<^verbatim>\<open>KEY_PREFIX\<close>,
  \<^verbatim>\<open>toKey\<close>, \<^verbatim>\<open>getPasswordHash\<close> (\<open>None\<close> when the call throws, as it can on a
  password that is not a string) and \<^verbatim>\<open>getUserAvatar\<close> from \<^verbatim>\<open>users.js\<close>, and the
  configuration value \<^verbatim>\<open>enableDiscreetLogin\<close>.
\<close>

record env =
  KEY_PREFIX :: string
  toKey :: "jsval \<Rightarrow> string"
  getPasswordHash :: "jsval \<Rightarrow> string \<Rightarrow> string option"
  getUserAvatar :: "string \<Rightarrow> string"
  DISCREET_LOGIN :: bool

subsection \<open>The rate limiter\<close>

text \<open>
  Modelled from the spec: \<^verbatim>\<open>RateLimiterMemory\<close> of the package
  \<^verbatim>\<open>rate-limiter-flexible\<close> is not among the sources. Section 4.1 of the specification:
  \<^verbatim>\<open>consume(key)\<close> charges one point; a key with no state, or whose window has elapsed,
  starts a fresh window with one point consumed and succeeds; otherwise the consumed
  points are incremented and, when they exceed \<open>points\<close>, the call fails with the time
  remaining until the window resets, the increment staying in place. \<^verbatim>\<open>delete(key)\<close>
  clears the state of the key. Time is in milliseconds, \<open>duration\<close> in seconds.
\<close>

record limit_state =
  consumedPoints :: nat
  windowStartedAt :: nat

record RateLimiterMemory =
  points :: nat
  duration :: nat

type_synonym limiter_table = "string \<Rightarrow> limit_state option"

datatype RateLimiterRes = RateLimiterRes nat

definition window_elapsed :: "RateLimiterMemory \<Rightarrow> limit_state \<Rightarrow> nat \<Rightarrow> bool" where
  "window_elapsed cfg s now = (windowStartedAt s + 1000 * duration cfg \<le> now)"

definition fresh_window :: "nat \<Rightarrow> limit_state" where
  "fresh_window now = \<lparr>consumedPoints = 1, windowStartedAt = now\<rparr>"

definition consume ::
  "RateLimiterMemory \<Rightarrow> limiter_table \<Rightarrow> string \<Rightarrow> nat \<Rightarrow> (RateLimiterRes + unit) \<times> limiter_table" where
  "consume cfg tbl key now =
     (case tbl key of
        None \<Rightarrow> (Inr (), tbl(key \<mapsto> fresh_window now))
      | Some s \<Rightarrow>
          if window_elapsed cfg s now then (Inr (), tbl(key \<mapsto> fresh_window now))
          else
            (if points cfg < consumedPoints s + 1
             then Inl (RateLimiterRes (windowStartedAt s + 1000 * duration cfg - now))
             else Inr (),
             tbl(key \<mapsto> s\<lparr>consumedPoints := consumedPoints s + 1\<rparr>)))"

definition delete_key :: "limiter_table \<Rightarrow> string \<Rightarrow> limiter_table" where
  "delete_key tbl key = tbl(key := None)"

text \<open>Lines 19 to 26 of the route file: the two limiter instances.\<close>

definition loginLimiter_opts :: RateLimiterMemory where
  "loginLimiter_opts = \<lparr>points = 5, duration = 60\<rparr>"

definition recoverLimiter_opts :: RateLimiterMemory where
  "recoverLimiter_opts = \<lparr>points = 5, duration = 300\<rparr>"

subsection \<open>The recovery-code cache\<close>

text \<open>
  Modelled from the spec: the class \<^verbatim>\<open>Cache\<close> of \<^verbatim>\<open>util.js\<close> is not among the
  sources. Section 4.2 of the specification: \<^verbatim>\<open>set\<close> stores the code with expiry
  now + TTL, overwriting; \<^verbatim>\<open>get\<close> returns the code when present and not expired (a code
  set at T is absent at or after T + TTL), otherwise an absent result, dropping the
  expired entry; \<^verbatim>\<open>remove\<close> deletes the entry.
\<close>

record cache_entry =
  code :: string
  expiresAt :: nat

type_synonym cache_table = "string \<Rightarrow> cache_entry option"

definition cache_set :: "nat \<Rightarrow> cache_table \<Rightarrow> string \<Rightarrow> string \<Rightarrow> nat \<Rightarrow> cache_table" where
  "cache_set ttl tbl k v now = tbl(k \<mapsto> \<lparr>code = v, expiresAt = now + ttl\<rparr>)"

definition cache_get :: "cache_table \<Rightarrow> string \<Rightarrow> nat \<Rightarrow> string option \<times> cache_table" where
  "cache_get tbl k now =
     (case tbl k of
        None \<Rightarrow> (None, tbl)
      | Some e \<Rightarrow> if now < expiresAt e then (Some (code e), tbl) else (None, tbl(k := None)))"

definition cache_remove :: "cache_table \<Rightarrow> string \<Rightarrow> cache_table" where
  "cache_remove tbl k = tbl(k := None)"

text \<open>Line 14 of the route file: \<^verbatim>\<open>new Cache(5 * 60 * 1000)\<close>.\<close>

definition MFA_TTL :: nat where
  "MFA_TTL = 5 * 60 * 1000"

text \<open>
  The absent result of \<^verbatim>\<open>get\<close> as a JavaScript value. Step 2 compares it with a code
  that is truthy, so only its being falsy matters.
\<close>

definition cached_value :: "string option \<Rightarrow> jsval" where
  "cached_value r = (case r of None \<Rightarrow> JNull | Some c \<Rightarrow> JStr c)"

section \<open>The routes\<close>

text \<open>
  The module state the routes share: the store, the two limiter tables and the cache.
  A route takes the state and returns its response with the state it leaves. The clock
  the limiter and the cache read is the argument \<open>now\<close>, in milliseconds. Of the
  exceptions the routes catch, the rejection of \<^verbatim>\<open>consume\<close> (status 429) and a throwing
  \<^verbatim>\<open>getPasswordHash\<close> (status 500) are modelled; the store does not fail.
\<close>

record state =
  storage :: storage
  loginLimiter :: limiter_table
  recoverLimiter :: limiter_table
  MFA_CACHE :: cache_table

text \<open>
  A request: the body fields, the origin \<^verbatim>\<open>getIpAddress(request)\<close>, and
  \<^verbatim>\<open>request.session\<close>, which is missing when the session subsystem is unavailable.
\<close>

record session =
  session_handle :: "string option"

record request =
  body_handle :: jsval
  body_password :: jsval
  body_code :: jsval
  body_newPassword :: jsval
  ip :: string
  req_session :: "session option"

record viewModel =
  vm_handle :: string
  vm_name :: string
  vm_created :: "int option"
  vm_avatar :: string
  vm_password :: bool

datatype json =
  ErrorJson string
| LoginJson string string
| ListJson "viewModel list"

datatype response = SendStatus nat | Json nat json


subsection \<open>\<^verbatim>\<open>POST /list\<close>\<close>

definition toViewModel :: "env \<Rightarrow> user \<Rightarrow> viewModel" where
  "toViewModel e u =
     \<lparr>vm_handle = handle u, vm_name = name u, vm_created = created u,
      vm_avatar = getUserAvatar e (handle u), vm_password = (password u \<noteq> [])\<rparr>"

definition created_or_0 :: "viewModel \<Rightarrow> int" where
  "created_or_0 v = (case vm_created v of None \<Rightarrow> 0 | Some c \<Rightarrow> c)"

definition list_users :: "env \<Rightarrow> state \<Rightarrow> response" where
  "list_users e st =
     (if DISCREET_LOGIN e then SendStatus 204
      else
        let users = values_where (\<lambda>k. startsWith k (KEY_PREFIX e)) (storage st);
            viewModels = map (toViewModel e) (filter enabled users)
        in Json 200 (ListJson (sort_key created_or_0 viewModels)))"

subsection \<open>\<^verbatim>\<open>POST /login\<close>\<close>

definition rate_limited_login :: response where
  "rate_limited_login = Json 429 (ErrorJson ''Too many attempts. Try again later or recover your password.'')"

definition login :: "env \<Rightarrow> request \<Rightarrow> nat \<Rightarrow> state \<Rightarrow> response \<times> state \<times> session option" where
  "login e req now st =
     (if \<not> truthy (body_handle req)
      then (Json 400 (ErrorJson ''Missing required fields''), st, req_session req)
      else
        case consume loginLimiter_opts (loginLimiter st) (ip req) now of
          (Inl res, tbl) \<Rightarrow> (rate_limited_login, st\<lparr>loginLimiter := tbl\<rparr>, req_session req)
        | (Inr ok, tbl) \<Rightarrow>
            let st1 = st\<lparr>loginLimiter := tbl\<rparr> in
            (case getItem (storage st1) (toKey e (body_handle req)) of
               None \<Rightarrow> (Json 403 (ErrorJson ''Incorrect credentials''), st1, req_session req)
             | Some u \<Rightarrow>
                 if \<not> enabled u
                 then (Json 403 (ErrorJson ''User is disabled''), st1, req_session req)
                 else
                   let checked =
                     (if password u \<noteq> []
                      then (case getPasswordHash e (body_password req) (salt u) of
                              None \<Rightarrow> Some (SendStatus 500)
                            | Some h \<Rightarrow>
                                if password u \<noteq> h
                                then Some (Json 403 (ErrorJson ''Incorrect credentials''))
                                else None)
                      else None)
                   in
                   (case checked of
                      Some r \<Rightarrow> (r, st1, req_session req)
                    | None \<Rightarrow>
                        (case req_session req of
                           None \<Rightarrow> (SendStatus 500, st1, None)
                         | Some s \<Rightarrow>
                             (Json 200 (LoginJson (handle u) (uid u)),
                              st1\<lparr>loginLimiter := delete_key tbl (ip req)\<rparr>,
                              Some (s\<lparr>session_handle := Some (handle u)\<rparr>))))))"

subsection \<open>\<^verbatim>\<open>POST /recover-step1\<close>\<close>

definition rate_limited_recover :: response where
  "rate_limited_recover = Json 429 (ErrorJson ''Too many attempts. Try again later or contact your admin.'')"

text \<open>\<open>x\<close> is the draw of the secure random source that \<^verbatim>\<open>crypto.randomInt\<close> accepts.\<close>

definition recover_step1 :: "env \<Rightarrow> request \<Rightarrow> nat \<Rightarrow> nat \<Rightarrow> state \<Rightarrow> response \<times> state" where
  "recover_step1 e req now x st =
     (if \<not> truthy (body_handle req)
      then (Json 400 (ErrorJson ''Missing required fields''), st)
      else
        case consume recoverLimiter_opts (recoverLimiter st) (ip req) now of
          (Inl res, tbl) \<Rightarrow> (rate_limited_recover, st\<lparr>recoverLimiter := tbl\<rparr>)
        | (Inr ok, tbl) \<Rightarrow>
            let st1 = st\<lparr>recoverLimiter := tbl\<rparr> in
            (case getItem (storage st1) (toKey e (body_handle req)) of
               None \<Rightarrow> (Json 404 (ErrorJson ''User not found''), st1)
             | Some u \<Rightarrow>
                 if \<not> enabled u
                 then (Json 403 (ErrorJson ''User is disabled''), st1)
                 else
                   let mfaCode = mfaCode_of x in
                   (SendStatus 204,
                    st1\<lparr>MFA_CACHE := cache_set MFA_TTL (MFA_CACHE st1) (handle u) mfaCode now\<rparr>)))"

subsection \<open>\<^verbatim>\<open>POST /recover-step2\<close>\<close>

text \<open>
  \<open>fresh\<close> is the value \<^verbatim>\<open>getPasswordSalt()\<close> returns when the route calls it.
\<close>

definition recover_step2 :: "env \<Rightarrow> request \<Rightarrow> nat \<Rightarrow> string \<Rightarrow> state \<Rightarrow> response \<times> state" where
  "recover_step2 e req now fresh st =
     (if \<not> truthy (body_handle req) \<or> \<not> truthy (body_code req)
      then (Json 400 (ErrorJson ''Missing required fields''), st)
      else
        case getItem (storage st) (toKey e (body_handle req)) of
          None \<Rightarrow> (Json 404 (ErrorJson ''User not found''), st)
        | Some u \<Rightarrow>
            if \<not> enabled u
            then (Json 403 (ErrorJson ''User is disabled''), st)
            else
              (case cache_get (MFA_CACHE st) (handle u) now of
                 (mfaCode, cache) \<Rightarrow>
                   let st1 = st\<lparr>MFA_CACHE := cache\<rparr> in
                   if body_code req \<noteq> cached_value mfaCode
                   then
                     (case consume recoverLimiter_opts (recoverLimiter st1) (ip req) now of
                        (Inl res, tbl) \<Rightarrow> (rate_limited_recover, st1\<lparr>recoverLimiter := tbl\<rparr>)
                      | (Inr ok, tbl) \<Rightarrow>
                          (Json 403 (ErrorJson ''Incorrect code''), st1\<lparr>recoverLimiter := tbl\<rparr>))
                   else
                     (case (if truthy (body_newPassword req)
                            then (case getPasswordHash e (body_newPassword req) fresh of
                                    None \<Rightarrow> None
                                  | Some h \<Rightarrow> Some (u\<lparr>password := h, salt := fresh\<rparr>))
                            else Some (u\<lparr>password := [], salt := []\<rparr>)) of
                        None \<Rightarrow> (SendStatus 500, st1)
                      | Some u' \<Rightarrow>
                          (SendStatus 204,
                           st1\<lparr>storage := setItem (toKey e (JStr (handle u'))) u' (storage st1),
                               recoverLimiter := delete_key (recoverLimiter st1) (ip req),
                               MFA_CACHE := cache_remove cache (handle u')\<rparr>))))"

section \<open>Scenarios and sample data\<close>

text \<open>
  A login request carries a wrong password when its handle is present and names an
  enabled identity with a password whose hash differs from the hash of the supplied one.
\<close>

definition wrong_password :: "env \<Rightarrow> storage \<Rightarrow> request \<Rightarrow> bool" where
  "wrong_password e kvs req =
     (truthy (body_handle req) \<and>
      (case getItem kvs (toKey e (body_handle req)) of
         None \<Rightarrow> False
       | Some u \<Rightarrow>
           enabled u \<and> password u \<noteq> [] \<and>
           (case getPasswordHash e (body_password req) (salt u) of
              None \<Rightarrow> False
            | Some h \<Rightarrow> password u \<noteq> h)))"


text \<open>
  A concrete instance of the parameters, three identities (one with a password, one
  without, one disabled) and a request builder, used to instantiate the theorems.
\<close>

definition sample_env :: env where
  "sample_env =
     \<lparr>KEY_PREFIX = ''user:'',
      toKey = (\<lambda>h. case h of JStr s \<Rightarrow> ''user:'' @ s | _ \<Rightarrow> ''user:''),
      getPasswordHash = (\<lambda>p s. case p of JStr x \<Rightarrow> Some (s @ x) | _ \<Rightarrow> None),
      getUserAvatar = (\<lambda>h. []),
      DISCREET_LOGIN = False\<rparr>"

definition alice :: user where
  "alice = \<lparr>handle = ''alice'', name = ''Alice'', created = Some 2,
            password = ''s1secret'', salt = ''s1'', enabled = True, uid = ''u1''\<rparr>"

definition bob :: user where
  "bob = \<lparr>handle = ''bob'', name = ''Bob'', created = None,
          password = [], salt = [], enabled = True, uid = ''u2''\<rparr>"

definition carol :: user where
  "carol = \<lparr>handle = ''carol'', name = ''Carol'', created = Some 1,
            password = [], salt = [], enabled = False, uid = ''u3''\<rparr>"

definition sample_state :: state where
  "sample_state =
     \<lparr>storage = [(''user:alice'', alice), (''user:bob'', bob), (''user:carol'', carol)],
      loginLimiter = Map.empty, recoverLimiter = Map.empty, MFA_CACHE = Map.empty\<rparr>"

definition sample_request :: "string \<Rightarrow> jsval \<Rightarrow> session option \<Rightarrow> request" where
  "sample_request h pw s =
     \<lparr>body_handle = JStr h, body_password = pw, body_code = JUndefined,
      body_newPassword = JUndefined, ip = ''10.0.0.1'', req_session = s\<rparr>"







text \<open>
  The supplied code equals the live cached code of the handle; no entry and an expired
  entry are no match.
\<close>

definition code_matches :: "cache_table \<Rightarrow> string \<Rightarrow> nat \<Rightarrow> jsval \<Rightarrow> bool" where
  "code_matches tbl h now c =
     (case tbl h of None \<Rightarrow> False | Some en \<Rightarrow> now < expiresAt en \<and> c = JStr (code en))"

text \<open>
  A recovery request builder, and the state after recovery step 1 for the first sample
  identity at time 0 with the draw 4321.
\<close>

definition sample_recover :: "string \<Rightarrow> jsval \<Rightarrow> jsval \<Rightarrow> request" where
  "sample_recover h c np =
     \<lparr>body_handle = JStr h, body_password = JUndefined, body_code = c,
      body_newPassword = np, ip = ''10.0.0.1'', req_session = None\<rparr>"

definition recovering_state :: state where
  "recovering_state =
     snd (recover_step1 sample_env (sample_recover ''alice'' JUndefined JUndefined) 0 4321 sample_state)"

section \<open>Facts about the recovery code\<close>

lemma randomInt_bounds:
  assumes "lo < hi"
  shows "lo \<le> randomInt lo hi x" and "randomInt lo hi x < hi"
proof -
  from assms have pos: "0 < nat (hi - lo)" by simp
  show "lo \<le> randomInt lo hi x" by (simp add: randomInt_def)
  have "x mod nat (hi - lo) < nat (hi - lo)" using pos by simp
  then show "randomInt lo hi x < hi" using assms unfolding randomInt_def by linarith
qed

lemma randomInt_hits:
  assumes "lo \<le> n" and "n < hi"
  shows "randomInt lo hi (nat (n - lo)) = n"
  using assms by (simp add: randomInt_def)

lemma randomInt_image:
  assumes "lo < hi"
  shows "range (randomInt lo hi) = {lo..hi - 1}"
proof
  show "range (randomInt lo hi) \<subseteq> {lo..hi - 1}"
    using randomInt_bounds [OF assms] by fastforce
next
  show "{lo..hi - 1} \<subseteq> range (randomInt lo hi)"
  proof
    fix n assume "n \<in> {lo..hi - 1}"
    then have "randomInt lo hi (nat (n - lo)) = n" by (simp add: randomInt_hits)
    then show "n \<in> range (randomInt lo hi)" by (metis rangeI)
  qed
qed

lemma digits10_four:
  assumes "1000 \<le> n" and "n < 10000"
  shows "digits10 n = [digit_char (n div 1000), digit_char (n div 100 mod 10),
                       digit_char (n div 10 mod 10), digit_char (n mod 10)]"
proof -
  have a: "\<not> n < 10" "\<not> n div 10 < 10" "\<not> n div 10 div 10 < 10" "n div 10 div 10 div 10 < 10"
    using assms by simp_all
  have b: "n div 10 div 10 = n div 100" "n div 10 div 10 div 10 = n div 1000"
    by (simp_all add: div_mult2_eq [symmetric])
  show ?thesis
    using a b
    by (simp add: digits10.simps [of n] digits10.simps [of "n div 10"]
        digits10.simps [of "n div 100"] digits10.simps [of "n div 1000"])
qed

lemma digit_char_nine: "d < 10 \<Longrightarrow> digit_char d = CHR ''9'' \<Longrightarrow> d = 9"
proof -
  assume d: "d < 10" and e: "digit_char d = CHR ''9''"
  from d have "d = 0 \<or> d = 1 \<or> d = 2 \<or> d = 3 \<or> d = 4 \<or> d = 5 \<or> d = 6
    \<or> d = 7 \<or> d = 8 \<or> d = 9" by arith
  then show "d = 9" using e by (auto simp: digit_char_def)
qed

lemma digit_char_is_digit: "d < 10 \<Longrightarrow> digit_char d \<in> set ''0123456789''"
  unfolding digit_char_def by (rule nth_mem) simp

lemma mfaCode_of_digits:
  obtains n where "1000 \<le> n" "n \<le> 9998" "randomInt 1000 9999 x = int n"
    "mfaCode_of x = [digit_char (n div 1000), digit_char (n div 100 mod 10),
                     digit_char (n div 10 mod 10), digit_char (n mod 10)]"
proof -
  define n where "n = nat (randomInt 1000 9999 x)"
  have lo: "1000 \<le> randomInt 1000 9999 x" and hi: "randomInt 1000 9999 x < 9999"
    using randomInt_bounds [of 1000 9999 x] by simp_all
  then have n: "1000 \<le> n" "n \<le> 9998" "randomInt 1000 9999 x = int n"
    unfolding n_def by simp_all
  have "mfaCode_of x = digits10 n"
    using lo by (simp add: mfaCode_of_def String_js_def n_def)
  also have "\<dots> = [digit_char (n div 1000), digit_char (n div 100 mod 10),
                     digit_char (n div 10 mod 10), digit_char (n mod 10)]"
    using n by (intro digits10_four) simp_all
  finally show thesis using n that by blast
qed

lemma four_nines_lin:
  fixes n q1 q2 q3 :: nat
  assumes "n = 10 * q1 + 9" "q1 = 10 * q2 + 9" "q2 = 10 * q3 + 9" "q3 = 9"
  shows "n = 9999"
  using assms by simp

lemma four_nines:
  fixes n :: nat
  assumes "n div 1000 = 9" "n div 100 mod 10 = 9" "n div 10 mod 10 = 9" "n mod 10 = 9"
  shows "n = 9999"
proof -
  have d: "n div 10 div 10 = n div 100" "n div 10 div 10 div 10 = n div 1000"
    by (simp_all add: div_mult2_eq [symmetric])
  have a: "n = 10 * (n div 10) + 9"
    using div_mult_mod_eq [of n 10] assms(4) by (simp add: mult.commute)
  have b: "n div 10 = 10 * (n div 10 div 10) + 9"
    using div_mult_mod_eq [of "n div 10" 10] assms(3) by (simp add: mult.commute)
  have c: "n div 10 div 10 = 10 * (n div 10 div 10 div 10) + 9"
    using div_mult_mod_eq [of "n div 10 div 10" 10] assms(2) d(1) by (simp add: mult.commute)
  have e: "n div 10 div 10 div 10 = 9" using assms(1) d(2) by simp
  from a b c e show ?thesis by (rule four_nines_lin)
qed


lemma mfaCode_of_not_9999: "mfaCode_of x \<noteq> ''9999''"
proof
  assume eq: "mfaCode_of x = ''9999''"
  obtain n where n: "1000 \<le> n" "n \<le> 9998"
    and d: "mfaCode_of x = [digit_char (n div 1000), digit_char (n div 100 mod 10),
                     digit_char (n div 10 mod 10), digit_char (n mod 10)]"
    by (rule mfaCode_of_digits)
  from eq d have e: "digit_char (n div 1000) = CHR ''9''" "digit_char (n div 100 mod 10) = CHR ''9''"
    "digit_char (n div 10 mod 10) = CHR ''9''" "digit_char (n mod 10) = CHR ''9''"
    by simp_all
  have "n div 1000 < 10" using n by simp
  then have "n div 1000 = 9" using e(1) by (rule digit_char_nine)
  moreover have "n div 100 mod 10 = 9" using _ e(2) by (rule digit_char_nine) simp
  moreover have "n div 10 mod 10 = 9" using _ e(3) by (rule digit_char_nine) simp
  moreover have "n mod 10 = 9" using _ e(4) by (rule digit_char_nine) simp
  ultimately have "n = 9999" by (rule four_nines)
  then show False using n by simp
qed

lemma card_code_space: "card (range (randomInt 1000 9999)) = 8999"
  by (simp add: randomInt_image)

lemma mfaCode_of_8999: "mfaCode_of 8999 = ''1000''"
  by (simp add: mfaCode_of_def String_js_def randomInt_def digits10_four digit_char_def)

lemma mfaCode_of_length: "length (mfaCode_of x) = 4"
proof -
  obtain n where "mfaCode_of x = [digit_char (n div 1000), digit_char (n div 100 mod 10),
                     digit_char (n div 10 mod 10), digit_char (n mod 10)]"
    by (rule mfaCode_of_digits)
  then show ?thesis by simp
qed

text \<open>The code recovery step 1 stores is \<open>mfaCode_of\<close> of the draw.\<close>

lemma recover_step1_caches_code:
  assumes "truthy (body_handle req)"
    and "fst (consume recoverLimiter_opts (recoverLimiter st) (ip req) now) = Inr ()"
    and "getItem (storage st) (toKey e (body_handle req)) = Some u"
    and "enabled u"
  shows "fst (recover_step1 e req now x st) = SendStatus 204"
    and "MFA_CACHE (snd (recover_step1 e req now x st)) (handle u)
           = Some \<lparr>code = mfaCode_of x, expiresAt = now + MFA_TTL\<rparr>"
  using assms
  by (auto simp: recover_step1_def cache_set_def split: prod.splits sum.splits)

text \<open>
  C1. Recovery step 1 generates its code as \<^verbatim>\<open>String(crypto.randomInt(1000, 9999))\<close>.
  The upper bound of \<^verbatim>\<open>randomInt\<close> is exclusive: every code is a string of four
  characters whose value lies between 1000 and 9998, the values drawn are exactly the
  8999 integers 1000 to 9998, and no draw gives the code 9999. The draw 8999, which a
  space of 9000 values would map to 9999, gives 1000.
\<close>

theorem recover_step1_code_space:
  "(\<forall>x. 1000 \<le> randomInt 1000 9999 x \<and> randomInt 1000 9999 x \<le> 9998
        \<and> length (mfaCode_of x) = 4)
   \<and> range (randomInt 1000 9999) = {1000..9998}
   \<and> card (range (randomInt 1000 9999)) = 8999
   \<and> (\<forall>x. mfaCode_of x \<noteq> ''9999'')
   \<and> mfaCode_of 8999 = ''1000''"
proof -
  have bounds: "\<forall>x. 1000 \<le> randomInt 1000 9999 x \<and> randomInt 1000 9999 x \<le> 9998
        \<and> length (mfaCode_of x) = 4"
  proof
    fix x
    have "1000 \<le> randomInt 1000 9999 x" "randomInt 1000 9999 x < 9999"
      using randomInt_bounds [of 1000 9999 x] by simp_all
    then show "1000 \<le> randomInt 1000 9999 x \<and> randomInt 1000 9999 x \<le> 9998
        \<and> length (mfaCode_of x) = 4"
      using mfaCode_of_length [of x] by linarith
  qed
  have image: "range (randomInt 1000 9999) = {1000..9998}"
    using randomInt_image [of 1000 9999] by simp
  have never: "\<forall>x. mfaCode_of x \<noteq> ''9999''"
    using mfaCode_of_not_9999 by blast
  from bounds image card_code_space never mfaCode_of_8999 show ?thesis
    by (intro conjI)
qed

section \<open>Login\<close>

lemma login_past_checks:
  assumes "truthy (body_handle req)"
    and "consume loginLimiter_opts (loginLimiter st) (ip req) now = (Inr (), tbl)"
    and "getItem (storage st) (toKey e (body_handle req)) = Some u"
    and "enabled u"
    and "password u = [] \<or> getPasswordHash e (body_password req) (salt u) = Some (password u)"
  shows "login e req now st =
     (case req_session req of
        None \<Rightarrow> (SendStatus 500, st\<lparr>loginLimiter := tbl\<rparr>, None)
      | Some s \<Rightarrow>
          (Json 200 (LoginJson (handle u) (uid u)),
           st\<lparr>loginLimiter := delete_key tbl (ip req)\<rparr>,
           Some (s\<lparr>session_handle := Some (handle u)\<rparr>)))"
  using assms by (auto simp: login_def split: option.splits)

lemma consume_entry:
  "\<exists>s. snd (consume cfg tbl key now) key = Some s \<and> 0 < consumedPoints s"
  by (simp add: consume_def fresh_window_def split: option.splits)

lemma consume_other: "k \<noteq> key \<Longrightarrow> snd (consume cfg tbl key now) k = tbl k"
  by (simp add: consume_def split: option.splits)

lemma delete_consume: "delete_key (snd (consume cfg tbl key now)) key = tbl(key := None)"
  by (simp add: consume_def delete_key_def split: option.splits)

lemma sample_getItem:
  "getItem (storage sample_state) (toKey sample_env (JStr ''alice'')) = Some alice"
  "getItem (storage sample_state) (toKey sample_env (JStr ''bob'')) = Some bob"
  "getItem (storage sample_state) (toKey sample_env (JStr ''carol'')) = Some carol"
  "getItem (storage sample_state) (toKey sample_env (JStr ''dave'')) = None"
  by (simp_all add: sample_state_def sample_env_def getItem_def)

lemma sample_consume_login:
  "consume loginLimiter_opts (loginLimiter sample_state) ''10.0.0.1'' 0
     = (Inr (), [''10.0.0.1'' \<mapsto> fresh_window 0])"
  by (simp add: consume_def sample_state_def)

text \<open>
  C2. A login that passes validation, the rate limiter, the lookup, the enabled check
  and the password check, but finds no session, answers 500 and leaves the limiter table
  as \<^verbatim>\<open>consume\<close> left it: the entry of the origin is still there, with its point charged.
\<close>

theorem login_session_unavailable:
  assumes "truthy (body_handle req)"
    and "consume loginLimiter_opts (loginLimiter st) (ip req) now = (Inr (), tbl)"
    and "getItem (storage st) (toKey e (body_handle req)) = Some u"
    and "enabled u"
    and "password u = [] \<or> getPasswordHash e (body_password req) (salt u) = Some (password u)"
    and "req_session req = None"
  shows "login e req now st = (SendStatus 500, st\<lparr>loginLimiter := tbl\<rparr>, None)
     \<and> (\<exists>s. tbl (ip req) = Some s \<and> 0 < consumedPoints s)"
proof -
  have "login e req now st = (SendStatus 500, st\<lparr>loginLimiter := tbl\<rparr>, None)"
    using login_past_checks [OF assms(1-5)] assms(6) by simp
  moreover have "\<exists>s. tbl (ip req) = Some s \<and> 0 < consumedPoints s"
    using consume_entry [of loginLimiter_opts "loginLimiter st" "ip req" now] assms(2) by simp
  ultimately show ?thesis by (rule conjI)
qed

theorem login_session_unavailable_witness:
  "login sample_env (sample_request ''alice'' (JStr ''secret'') None) 0 sample_state
     = (SendStatus 500, sample_state\<lparr>loginLimiter := [''10.0.0.1'' \<mapsto> fresh_window 0]\<rparr>, None)"
proof -
  let ?req = "sample_request ''alice'' (JStr ''secret'') None"
  have h1: "truthy (body_handle ?req)" by (simp add: sample_request_def)
  have h2: "consume loginLimiter_opts (loginLimiter sample_state) (ip ?req) 0
     = (Inr (), [''10.0.0.1'' \<mapsto> fresh_window 0])"
    using sample_consume_login by (simp add: sample_request_def)
  have h3: "getItem (storage sample_state) (toKey sample_env (body_handle ?req)) = Some alice"
    using sample_getItem(1) by (simp add: sample_request_def)
  have h4: "enabled alice" by (simp add: alice_def)
  have h5: "password alice = [] \<or>
      getPasswordHash sample_env (body_password ?req) (salt alice) = Some (password alice)"
    by (simp add: alice_def sample_env_def sample_request_def)
  have h6: "req_session ?req = None" by (simp add: sample_request_def)
  from login_session_unavailable [OF h1 h2 h3 h4 h5 h6] show ?thesis by simp
qed

lemma login_no_identity:
  assumes "truthy (body_handle req)"
    and "fst (consume loginLimiter_opts (loginLimiter st) (ip req) now) = Inr ()"
    and "getItem (storage st) (toKey e (body_handle req)) = None"
  shows "fst (login e req now st) = Json 403 (ErrorJson ''Incorrect credentials'')"
  using assms by (auto simp: login_def split: prod.splits sum.splits)

lemma login_wrong_password:
  assumes "wrong_password e (storage st) req"
  shows "login e req now st =
     (case consume loginLimiter_opts (loginLimiter st) (ip req) now of
        (Inl res, tbl) \<Rightarrow> (rate_limited_login, st\<lparr>loginLimiter := tbl\<rparr>, req_session req)
      | (Inr ok, tbl) \<Rightarrow>
          (Json 403 (ErrorJson ''Incorrect credentials''), st\<lparr>loginLimiter := tbl\<rparr>,
           req_session req))"
  using assms
  by (auto simp: login_def wrong_password_def split: prod.splits sum.splits option.splits)

text \<open>
  When \<^verbatim>\<open>getPasswordHash\<close> returns a hash for the supplied password and the hash differs
  from the stored one, the response is the one a handle missing from the store gets:
  403 with the body \<^verbatim>\<open>Incorrect credentials\<close>.
\<close>

lemma login_forbidden_uniform:
  assumes "truthy (body_handle req1)"
    and "fst (consume loginLimiter_opts (loginLimiter st1) (ip req1) now1) = Inr ()"
    and "getItem (storage st1) (toKey e (body_handle req1)) = None"
    and "wrong_password e (storage st2) req2"
    and "fst (consume loginLimiter_opts (loginLimiter st2) (ip req2) now2) = Inr ()"
  shows "fst (login e req1 now1 st1) = Json 403 (ErrorJson ''Incorrect credentials'')
     \<and> fst (login e req2 now2 st2) = Json 403 (ErrorJson ''Incorrect credentials'')
     \<and> fst (login e req1 now1 st1) = fst (login e req2 now2 st2)"
proof -
  have a: "fst (login e req1 now1 st1) = Json 403 (ErrorJson ''Incorrect credentials'')"
    using assms(1-3) by (rule login_no_identity)
  have b: "fst (login e req2 now2 st2) = Json 403 (ErrorJson ''Incorrect credentials'')"
    using assms(5)
    by (cases "consume loginLimiter_opts (loginLimiter st2) (ip req2) now2")
       (simp add: login_wrong_password [OF assms(4)])
  from a b show ?thesis by simp
qed

lemma sample_wrong_password:
  "wrong_password sample_env (storage sample_state) (sample_request ''alice'' (JStr ''guess'') s)"
  by (simp add: wrong_password_def sample_request_def sample_state_def getItem_def
      sample_env_def alice_def)

lemma login_forbidden_uniform_sample:
  "fst (login sample_env (sample_request ''dave'' (JStr ''guess'') None) 0 sample_state)
     = Json 403 (ErrorJson ''Incorrect credentials'')
   \<and> fst (login sample_env (sample_request ''alice'' (JStr ''guess'') None) 0 sample_state)
     = Json 403 (ErrorJson ''Incorrect credentials'')"
proof -
  let ?r1 = "sample_request ''dave'' (JStr ''guess'') None"
  let ?r2 = "sample_request ''alice'' (JStr ''guess'') None"
  have h1: "truthy (body_handle ?r1)" by (simp add: sample_request_def)
  have h2: "fst (consume loginLimiter_opts (loginLimiter sample_state) (ip ?r1) 0) = Inr ()"
    by (simp add: sample_consume_login sample_request_def)
  have h3: "getItem (storage sample_state) (toKey sample_env (body_handle ?r1)) = None"
    using sample_getItem(4) by (simp add: sample_request_def)
  have h4: "wrong_password sample_env (storage sample_state) ?r2"
    by (rule sample_wrong_password)
  have h5: "fst (consume loginLimiter_opts (loginLimiter sample_state) (ip ?r2) 0) = Inr ()"
    by (simp add: sample_consume_login sample_request_def)
  from login_forbidden_uniform [OF h1 h2 h3 h4 h5] show ?thesis by simp
qed

lemma login_hash_throws:
  assumes "truthy (body_handle req)"
    and "fst (consume loginLimiter_opts (loginLimiter st) (ip req) now) = Inr ()"
    and "getItem (storage st) (toKey e (body_handle req)) = Some u"
    and "enabled u"
    and "password u \<noteq> []"
    and "getPasswordHash e (body_password req) (salt u) = None"
  shows "fst (login e req now st) = SendStatus 500"
  using assms by (auto simp: login_def split: prod.splits sum.splits)

text \<open>
  C4. The claim: among login requests with a present handle that the limiter lets
  through, a handle missing from the store and a wrong password for an enabled identity
  get the same response, 403 with the body \<^verbatim>\<open>Incorrect credentials\<close>, so that the
  response does not tell whether the handle exists. The route checks only the handle
  before it hashes \<^verbatim>\<open>request.body.password\<close>. For a request without a password field
  the hash function throws, the route's catch-all answers 500 for the enabled identity
  that has a password, and 403 for the handle that is missing: the two responses differ.
\<close>

theorem login_absent_password_reveals_identity:
  "fst (login sample_env (sample_request ''dave'' JUndefined (Some \<lparr>session_handle = None\<rparr>))
         0 sample_state) = Json 403 (ErrorJson ''Incorrect credentials'')
   \<and> fst (login sample_env (sample_request ''alice'' JUndefined (Some \<lparr>session_handle = None\<rparr>))
         0 sample_state) = SendStatus 500
   \<and> fst (login sample_env (sample_request ''dave'' JUndefined (Some \<lparr>session_handle = None\<rparr>))
         0 sample_state)
       \<noteq> fst (login sample_env (sample_request ''alice'' JUndefined (Some \<lparr>session_handle = None\<rparr>))
         0 sample_state)"
proof -
  let ?s = "Some \<lparr>session_handle = None\<rparr>"
  let ?r1 = "sample_request ''dave'' JUndefined ?s"
  let ?r2 = "sample_request ''alice'' JUndefined ?s"
  have t1: "truthy (body_handle ?r1)" and t2: "truthy (body_handle ?r2)"
    by (simp_all add: sample_request_def)
  have c1: "fst (consume loginLimiter_opts (loginLimiter sample_state) (ip ?r1) 0) = Inr ()"
    and c2: "fst (consume loginLimiter_opts (loginLimiter sample_state) (ip ?r2) 0) = Inr ()"
    by (simp_all add: sample_consume_login sample_request_def)
  have g1: "getItem (storage sample_state) (toKey sample_env (body_handle ?r1)) = None"
    using sample_getItem(4) by (simp add: sample_request_def)
  have g2: "getItem (storage sample_state) (toKey sample_env (body_handle ?r2)) = Some alice"
    using sample_getItem(1) by (simp add: sample_request_def)
  have u: "enabled alice" "password alice \<noteq> []" by (simp_all add: alice_def)
  have h: "getPasswordHash sample_env (body_password ?r2) (salt alice) = None"
    by (simp add: sample_env_def sample_request_def)
  have a: "fst (login sample_env ?r1 0 sample_state) = Json 403 (ErrorJson ''Incorrect credentials'')"
    using t1 c1 g1 by (rule login_no_identity)
  have b: "fst (login sample_env ?r2 0 sample_state) = SendStatus 500"
    using t2 c2 g2 u h by (rule login_hash_throws)
  show ?thesis unfolding a b by simp
qed

text \<open>
  C5. When every check of a login succeeds and the session is there, the entry of the
  origin is removed from the login limiter (the other entries stay), the session's
  handle becomes the identity's handle, and the body is that identity's handle and uid.
\<close>

theorem login_success:
  assumes "truthy (body_handle req)"
    and "consume loginLimiter_opts (loginLimiter st) (ip req) now = (Inr (), tbl)"
    and "getItem (storage st) (toKey e (body_handle req)) = Some u"
    and "enabled u"
    and "password u = [] \<or> getPasswordHash e (body_password req) (salt u) = Some (password u)"
    and "req_session req = Some s"
  shows "login e req now st =
      (Json 200 (LoginJson (handle u) (uid u)),
       st\<lparr>loginLimiter := (loginLimiter st)(ip req := None)\<rparr>,
       Some (s\<lparr>session_handle := Some (handle u)\<rparr>))"
proof -
  have "delete_key tbl (ip req) = (loginLimiter st)(ip req := None)"
    using delete_consume [of loginLimiter_opts "loginLimiter st" "ip req" now] assms(2) by simp
  then show ?thesis
    using login_past_checks [OF assms(1-5)] assms(6) by simp
qed

theorem login_success_witness:
  "login sample_env (sample_request ''alice'' (JStr ''secret'') (Some \<lparr>session_handle = None\<rparr>))
       0 sample_state
     = (Json 200 (LoginJson ''alice'' ''u1''), sample_state,
        Some \<lparr>session_handle = Some ''alice''\<rparr>)"
proof -
  let ?req = "sample_request ''alice'' (JStr ''secret'') (Some \<lparr>session_handle = None\<rparr>)"
  have h1: "truthy (body_handle ?req)" by (simp add: sample_request_def)
  have h2: "consume loginLimiter_opts (loginLimiter sample_state) (ip ?req) 0
     = (Inr (), [''10.0.0.1'' \<mapsto> fresh_window 0])"
    using sample_consume_login by (simp add: sample_request_def)
  have h3: "getItem (storage sample_state) (toKey sample_env (body_handle ?req)) = Some alice"
    using sample_getItem(1) by (simp add: sample_request_def)
  have h4: "enabled alice" by (simp add: alice_def)
  have h5: "password alice = [] \<or>
      getPasswordHash sample_env (body_password ?req) (salt alice) = Some (password alice)"
    by (simp add: alice_def sample_env_def sample_request_def)
  have h6: "req_session ?req = Some \<lparr>session_handle = None\<rparr>" by (simp add: sample_request_def)
  have "(loginLimiter sample_state)(ip ?req := None) = loginLimiter sample_state"
    by (simp add: sample_state_def)
  then show ?thesis
    using login_success [OF h1 h2 h3 h4 h5 h6] by (simp add: alice_def)
qed

text \<open>
  C6. For an identity whose stored \<open>password\<close> is empty the route never calls
  \<^verbatim>\<open>getPasswordHash\<close>: whatever the request's password field holds (a string, the
  empty string, nothing) and whatever the hash function is, the login succeeds once the
  identity exists and is enabled, the limiter lets the origin through and the session is
  there.
\<close>

theorem login_passwordless:
  assumes "truthy (body_handle req)"
    and "fst (consume loginLimiter_opts (loginLimiter st) (ip req) now) = Inr ()"
    and "getItem (storage st) (toKey e (body_handle req)) = Some u"
    and "enabled u"
    and "password u = []"
    and "req_session req = Some s"
  shows "login (e\<lparr>getPasswordHash := g\<rparr>) (req\<lparr>body_password := pw\<rparr>) now st =
      (Json 200 (LoginJson (handle u) (uid u)),
       st\<lparr>loginLimiter := (loginLimiter st)(ip req := None)\<rparr>,
       Some (s\<lparr>session_handle := Some (handle u)\<rparr>))"
proof -
  let ?e = "e\<lparr>getPasswordHash := g\<rparr>" and ?req = "req\<lparr>body_password := pw\<rparr>"
  obtain tbl where c: "consume loginLimiter_opts (loginLimiter st) (ip ?req) now = (Inr (), tbl)"
    using assms(2) by (cases "consume loginLimiter_opts (loginLimiter st) (ip req) now") simp
  have d: "delete_key tbl (ip ?req) = (loginLimiter st)(ip req := None)"
    using delete_consume [of loginLimiter_opts "loginLimiter st" "ip req" now] c by simp
  have "login ?e ?req now st =
     (case req_session ?req of
        None \<Rightarrow> (SendStatus 500, st\<lparr>loginLimiter := tbl\<rparr>, None)
      | Some s \<Rightarrow>
          (Json 200 (LoginJson (handle u) (uid u)),
           st\<lparr>loginLimiter := delete_key tbl (ip ?req)\<rparr>,
           Some (s\<lparr>session_handle := Some (handle u)\<rparr>)))"
    using assms(1,3,4,5) c by (intro login_past_checks) simp_all
  then show ?thesis using assms(6) d by simp
qed

theorem login_passwordless_witness:
  "fst (login sample_env (sample_request ''bob'' JUndefined (Some \<lparr>session_handle = None\<rparr>))
       0 sample_state) = Json 200 (LoginJson ''bob'' ''u2'')
   \<and> fst (login sample_env (sample_request ''bob'' (JStr ''anything'') (Some \<lparr>session_handle = None\<rparr>))
       0 sample_state) = Json 200 (LoginJson ''bob'' ''u2'')"
proof -
  let ?req = "sample_request ''bob'' JNull (Some \<lparr>session_handle = None\<rparr>)"
  have h1: "truthy (body_handle ?req)" by (simp add: sample_request_def)
  have h2: "fst (consume loginLimiter_opts (loginLimiter sample_state) (ip ?req) 0) = Inr ()"
    by (simp add: sample_consume_login sample_request_def)
  have h3: "getItem (storage sample_state) (toKey sample_env (body_handle ?req)) = Some bob"
    using sample_getItem(2) by (simp add: sample_request_def)
  have h4: "enabled bob" and h5: "password bob = []" by (simp_all add: bob_def)
  have h6: "req_session ?req = Some \<lparr>session_handle = None\<rparr>" by (simp add: sample_request_def)
  have e: "sample_env\<lparr>getPasswordHash := getPasswordHash sample_env\<rparr> = sample_env" by simp
  have r: "?req\<lparr>body_password := pw\<rparr> = sample_request ''bob'' pw (Some \<lparr>session_handle = None\<rparr>)" for pw
    by (simp add: sample_request_def)
  from login_passwordless [OF h1 h2 h3 h4 h5 h6, of "getPasswordHash sample_env" JUndefined]
       login_passwordless [OF h1 h2 h3 h4 h5 h6, of "getPasswordHash sample_env" "JStr ''anything''"]
  show ?thesis unfolding e r by (simp add: bob_def)
qed

section \<open>Repeated wrong passwords\<close>




















section \<open>Recovery step 2\<close>

lemma code_matches_iff:
  assumes "truthy c"
  shows "(c \<noteq> cached_value (fst (cache_get tbl h now))) = (\<not> code_matches tbl h now c)"
  using assms
  by (cases c) (auto simp: code_matches_def cache_get_def cached_value_def split: option.splits)

lemma cache_get_match:
  assumes "code_matches tbl h now c"
  shows "snd (cache_get tbl h now) = tbl"
  using assms by (auto simp: code_matches_def cache_get_def split: option.splits)

lemma getItem_setItem: "getItem (setItem k v kvs) k = Some v"
  by (induction kvs) (auto simp: getItem_def)

lemma getItem_setItem_other: "k' \<noteq> k \<Longrightarrow> getItem (setItem k v kvs) k' = getItem kvs k'"
  by (induction kvs) (auto simp: getItem_def)

lemma recover_step2_mismatch:
  assumes "truthy (body_handle req)" and "truthy (body_code req)"
    and "getItem (storage st) (toKey e (body_handle req)) = Some u"
    and "enabled u"
    and "\<not> code_matches (MFA_CACHE st) (handle u) now (body_code req)"
  shows "recover_step2 e req now fresh st =
     (case consume recoverLimiter_opts (recoverLimiter st) (ip req) now of
        (Inl res, tbl) \<Rightarrow>
          (rate_limited_recover,
           st\<lparr>recoverLimiter := tbl, MFA_CACHE := snd (cache_get (MFA_CACHE st) (handle u) now)\<rparr>)
      | (Inr ok, tbl) \<Rightarrow>
          (Json 403 (ErrorJson ''Incorrect code''),
           st\<lparr>recoverLimiter := tbl, MFA_CACHE := snd (cache_get (MFA_CACHE st) (handle u) now)\<rparr>))"
proof -
  have ne: "body_code req \<noteq> cached_value (fst (cache_get (MFA_CACHE st) (handle u) now))"
    using code_matches_iff [OF assms(2)] assms(5) by simp
  show ?thesis
    using assms(1-4) ne
    by (cases "cache_get (MFA_CACHE st) (handle u) now")
       (auto simp: recover_step2_def split: prod.splits sum.splits)
qed

lemma mfaCode_of_4321: "mfaCode_of 4321 = ''5321''"
  by (simp add: mfaCode_of_def String_js_def randomInt_def digits10_four digit_char_def)

lemma recovering_state_eq:
  "recovering_state = sample_state
     \<lparr>recoverLimiter := [''10.0.0.1'' \<mapsto> fresh_window 0],
      MFA_CACHE := [''alice'' \<mapsto> \<lparr>code = ''5321'', expiresAt = 300000\<rparr>]\<rparr>"
  by (simp add: recovering_state_def recover_step1_def sample_recover_def consume_def
      sample_state_def getItem_def sample_env_def alice_def cache_set_def MFA_TTL_def
      mfaCode_of_4321)

lemma recovering_getItem:
  "getItem (storage recovering_state) (toKey sample_env (JStr ''alice'')) = Some alice"
  "getItem (storage recovering_state) (toKey sample_env (JStr ''carol'')) = Some carol"
  "getItem (storage recovering_state) (toKey sample_env (JStr ''dave'')) = None"
  using sample_getItem by (simp_all add: recovering_state_eq)

lemma recover_step2_match:
  assumes "truthy (body_handle req)" and "truthy (body_code req)"
    and "getItem (storage st) (toKey e (body_handle req)) = Some u"
    and "enabled u"
    and "code_matches (MFA_CACHE st) (handle u) now (body_code req)"
  shows "recover_step2 e req now fresh st =
     (case (if truthy (body_newPassword req)
            then (case getPasswordHash e (body_newPassword req) fresh of
                    None \<Rightarrow> None
                  | Some h \<Rightarrow> Some (u\<lparr>password := h, salt := fresh\<rparr>))
            else Some (u\<lparr>password := [], salt := []\<rparr>)) of
        None \<Rightarrow> (SendStatus 500, st)
      | Some u' \<Rightarrow>
          (SendStatus 204,
           st\<lparr>storage := setItem (toKey e (JStr (handle u))) u' (storage st),
              recoverLimiter := delete_key (recoverLimiter st) (ip req),
              MFA_CACHE := cache_remove (MFA_CACHE st) (handle u)\<rparr>))"
proof -
  have eq: "body_code req = cached_value (fst (cache_get (MFA_CACHE st) (handle u) now))"
    using code_matches_iff [OF assms(2), of "MFA_CACHE st" "handle u" now] assms(5) by simp
  have same: "snd (cache_get (MFA_CACHE st) (handle u) now) = MFA_CACHE st"
    using assms(5) by (rule cache_get_match)
  obtain r where c: "cache_get (MFA_CACHE st) (handle u) now = (r, MFA_CACHE st)"
    using same by (cases "cache_get (MFA_CACHE st) (handle u) now") simp
  from eq c have eq': "body_code req = cached_value r" by simp
  show ?thesis
    using assms(1-4) c eq'
    by (auto simp: recover_step2_def split: option.splits)
qed

text \<open>
  C7. In recovery step 2 with handle and code present and an enabled identity, a code
  that does not match the live cached code (no entry and an expired entry are no match)
  makes the route call \<^verbatim>\<open>recoverLimiter.consume(ip)\<close>: the recovery limiter table
  becomes the one this call leaves, and the answer is 403 \<^verbatim>\<open>Incorrect code\<close> when the
  call succeeds and 429 when it fails. The store is not written.
\<close>

theorem recover_step2_wrong_code:
  assumes "truthy (body_handle req)" and "truthy (body_code req)"
    and "getItem (storage st) (toKey e (body_handle req)) = Some u"
    and "enabled u"
    and "\<not> code_matches (MFA_CACHE st) (handle u) now (body_code req)"
  shows "fst (recover_step2 e req now fresh st) =
           (case fst (consume recoverLimiter_opts (recoverLimiter st) (ip req) now) of
              Inl res \<Rightarrow> rate_limited_recover
            | Inr ok \<Rightarrow> Json 403 (ErrorJson ''Incorrect code''))
     \<and> recoverLimiter (snd (recover_step2 e req now fresh st))
           = snd (consume recoverLimiter_opts (recoverLimiter st) (ip req) now)
     \<and> storage (snd (recover_step2 e req now fresh st)) = storage st"
  by (cases "consume recoverLimiter_opts (recoverLimiter st) (ip req) now")
     (simp add: recover_step2_mismatch [OF assms] split: sum.splits)


theorem recover_step2_wrong_code_witness:
  "fst (recover_step2 sample_env (sample_recover ''alice'' (JStr ''0000'') JUndefined) 1000 []
         recovering_state) = Json 403 (ErrorJson ''Incorrect code'')
   \<and> recoverLimiter (snd (recover_step2 sample_env
         (sample_recover ''alice'' (JStr ''0000'') JUndefined) 1000 [] recovering_state)) ''10.0.0.1''
       = Some \<lparr>consumedPoints = 2, windowStartedAt = 0\<rparr>"
proof -
  let ?req = "sample_recover ''alice'' (JStr ''0000'') JUndefined"
  have h1: "truthy (body_handle ?req)" and h2: "truthy (body_code ?req)"
    by (simp_all add: sample_recover_def)
  have h3: "getItem (storage recovering_state) (toKey sample_env (body_handle ?req)) = Some alice"
    using recovering_getItem(1) by (simp add: sample_recover_def)
  have h4: "enabled alice" by (simp add: alice_def)
  have h5: "\<not> code_matches (MFA_CACHE recovering_state) (handle alice) 1000 (body_code ?req)"
    by (simp add: code_matches_def recovering_state_eq alice_def sample_recover_def)
  have c: "consume recoverLimiter_opts (recoverLimiter recovering_state) (ip ?req) 1000
     = (Inr (), [''10.0.0.1'' \<mapsto> \<lparr>consumedPoints = 2, windowStartedAt = 0\<rparr>])"
    by (simp add: consume_def recovering_state_eq sample_recover_def fresh_window_def
        window_elapsed_def recoverLimiter_opts_def numeral_2_eq_2)
  from recover_step2_wrong_code [OF h1 h2 h3 h4 h5, of "[]"] show ?thesis
    by (simp add: c)
qed

text \<open>
  C10. In recovery step 2 with handle and code present, when the store has no identity
  for the handle (404) or the identity is disabled (403), the route returns before it
  touches the limiter, the cache or the store: the shared state is the one it started
  from.
\<close>

theorem recover_step2_frame:
  assumes "truthy (body_handle req)" and "truthy (body_code req)"
    and "case getItem (storage st) (toKey e (body_handle req)) of
           None \<Rightarrow> True | Some u \<Rightarrow> \<not> enabled u"
  shows "recover_step2 e req now fresh st =
     (case getItem (storage st) (toKey e (body_handle req)) of
        None \<Rightarrow> Json 404 (ErrorJson ''User not found'')
      | Some u \<Rightarrow> Json 403 (ErrorJson ''User is disabled''),
      st)"
proof (cases "getItem (storage st) (toKey e (body_handle req))")
  case None
  with assms(1,2) show ?thesis by (simp add: recover_step2_def)
next
  case (Some u)
  with assms(3) have "\<not> enabled u" by simp
  with assms(1,2) Some show ?thesis by (simp add: recover_step2_def)
qed

theorem recover_step2_frame_witness:
  "recover_step2 sample_env (sample_recover ''dave'' (JStr ''5321'') JUndefined) 1000 []
       recovering_state = (Json 404 (ErrorJson ''User not found''), recovering_state)
   \<and> recover_step2 sample_env (sample_recover ''carol'' (JStr ''5321'') JUndefined) 1000 []
       recovering_state = (Json 403 (ErrorJson ''User is disabled''), recovering_state)"
proof -
  let ?r1 = "sample_recover ''dave'' (JStr ''5321'') JUndefined"
  let ?r2 = "sample_recover ''carol'' (JStr ''5321'') JUndefined"
  have g1: "getItem (storage recovering_state) (toKey sample_env (body_handle ?r1)) = None"
    using recovering_getItem(3) by (simp add: sample_recover_def)
  have g2: "getItem (storage recovering_state) (toKey sample_env (body_handle ?r2)) = Some carol"
    using recovering_getItem(2) by (simp add: sample_recover_def)
  have a1: "truthy (body_handle ?r1)" "truthy (body_code ?r1)"
    and a2: "truthy (body_handle ?r2)" "truthy (body_code ?r2)"
    by (simp_all add: sample_recover_def)
  have a3: "case getItem (storage recovering_state) (toKey sample_env (body_handle ?r1)) of
           None \<Rightarrow> True | Some u \<Rightarrow> \<not> enabled u"
    by (simp add: g1)
  have a4: "case getItem (storage recovering_state) (toKey sample_env (body_handle ?r2)) of
           None \<Rightarrow> True | Some u \<Rightarrow> \<not> enabled u"
    by (simp add: g2 carol_def)
  from recover_step2_frame [OF a1 a3, of 1000 "[]"] recover_step2_frame [OF a2 a4, of 1000 "[]"]
  show ?thesis by (simp add: g1 g2)
qed


text \<open>
  C8. When recovery step 2 succeeds (the code matches and the answer is 204), the
  record written under the identity's key is the stored record with only \<open>password\<close> and
  \<open>salt\<close> replaced: by the hash of the new password under the fresh salt, and that salt,
  when \<^verbatim>\<open>newPassword\<close> is given, and by two empty strings otherwise. The written record
  has a non-empty \<open>password\<close> exactly when it has a non-empty \<open>salt\<close>, given that
  \<^verbatim>\<open>getPasswordSalt\<close> and \<^verbatim>\<open>getPasswordHash\<close> do not return empty strings.
\<close>

theorem recover_step2_writes_password:
  assumes "truthy (body_handle req)" and "truthy (body_code req)"
    and "getItem (storage st) (toKey e (body_handle req)) = Some u"
    and "enabled u"
    and "code_matches (MFA_CACHE st) (handle u) now (body_code req)"
    and "fst (recover_step2 e req now fresh st) = SendStatus 204"
  shows "\<exists>u'. storage (snd (recover_step2 e req now fresh st))
              = setItem (toKey e (JStr (handle u))) u' (storage st)
     \<and> getItem (storage (snd (recover_step2 e req now fresh st))) (toKey e (JStr (handle u)))
              = Some u'
     \<and> u' = u\<lparr>password := password u', salt := salt u'\<rparr>
     \<and> (if truthy (body_newPassword req)
         then getPasswordHash e (body_newPassword req) fresh = Some (password u') \<and> salt u' = fresh
         else password u' = [] \<and> salt u' = [])
     \<and> (fresh \<noteq> [] \<and> getPasswordHash e (body_newPassword req) fresh \<noteq> Some []
           \<longrightarrow> (password u' \<noteq> []) = (salt u' \<noteq> []))"
proof (cases "truthy (body_newPassword req)")
  case False
  let ?u' = "u\<lparr>password := [], salt := []\<rparr>"
  have "storage (snd (recover_step2 e req now fresh st))
      = setItem (toKey e (JStr (handle u))) ?u' (storage st)"
    using False by (simp add: recover_step2_match [OF assms(1-5)])
  then show ?thesis using False
    by (intro exI [of _ ?u']) (simp add: getItem_setItem)
next
  case True
  show ?thesis
  proof (cases "getPasswordHash e (body_newPassword req) fresh")
    case None
    with True assms(6) show ?thesis by (simp add: recover_step2_match [OF assms(1-5)])
  next
    case (Some h)
    let ?u' = "u\<lparr>password := h, salt := fresh\<rparr>"
    have "storage (snd (recover_step2 e req now fresh st))
        = setItem (toKey e (JStr (handle u))) ?u' (storage st)"
      using True Some by (simp add: recover_step2_match [OF assms(1-5)])
    then show ?thesis using True Some
      by (intro exI [of _ ?u']) (simp add: getItem_setItem)
  qed
qed

theorem recover_step2_writes_password_witness:
  "getItem (storage (snd (recover_step2 sample_env
       (sample_recover ''alice'' (JStr ''5321'') (JStr ''newpw'')) 1000 ''s9'' recovering_state)))
     ''user:alice'' = Some (alice\<lparr>password := ''s9newpw'', salt := ''s9''\<rparr>)"
proof -
  let ?req = "sample_recover ''alice'' (JStr ''5321'') (JStr ''newpw'')"
  let ?out = "recover_step2 sample_env ?req 1000 ''s9'' recovering_state"
  have h1: "truthy (body_handle ?req)" and h2: "truthy (body_code ?req)"
    by (simp_all add: sample_recover_def)
  have h3: "getItem (storage recovering_state) (toKey sample_env (body_handle ?req)) = Some alice"
    using recovering_getItem(1) by (simp add: sample_recover_def)
  have h4: "enabled alice" by (simp add: alice_def)
  have h5: "code_matches (MFA_CACHE recovering_state) (handle alice) 1000 (body_code ?req)"
    by (simp add: code_matches_def recovering_state_eq alice_def sample_recover_def)
  have np: "truthy (body_newPassword ?req)"
    and hash: "getPasswordHash sample_env (body_newPassword ?req) ''s9'' = Some ''s9newpw''"
    by (simp_all add: sample_recover_def sample_env_def)
  have h6: "fst ?out = SendStatus 204"
    using np hash by (simp add: recover_step2_match [OF h1 h2 h3 h4 h5])
  have key: "toKey sample_env (JStr (handle alice)) = ''user:alice''"
    by (simp add: sample_env_def alice_def)
  from recover_step2_writes_password [OF h1 h2 h3 h4 h5 h6]
  obtain u' where w: "getItem (storage (snd ?out)) ''user:alice'' = Some u'"
    and r: "u' = alice\<lparr>password := password u', salt := salt u'\<rparr>"
    and p: "getPasswordHash sample_env (body_newPassword ?req) ''s9'' = Some (password u')"
      "salt u' = ''s9''"
    using np key by auto
  from p hash have "password u' = ''s9newpw''" by simp
  with r p(2) have "u' = alice\<lparr>password := ''s9newpw'', salt := ''s9''\<rparr>" by simp
  with w show ?thesis by simp
qed

section \<open>Listing identities\<close>

lemma values_where_subset: "set (values_where f kvs) \<subseteq> snd ` set kvs"
  by (auto simp: values_where_def)

lemma listed_are_enabled:
  assumes "v \<in> set (sort_key created_or_0 (map (toViewModel e) (filter enabled (values_where f kvs))))"
  shows "\<exists>u \<in> snd ` set kvs. enabled u \<and> v = toViewModel e u"
proof -
  from assms obtain u where u: "u \<in> set (values_where f kvs)" "enabled u" "v = toViewModel e u"
    by auto
  with values_where_subset [of f kvs] show ?thesis by blast
qed

text \<open>
  C9. With discreet mode off, \<^verbatim>\<open>POST /list\<close> answers with a list each of whose
  entries is the view of a stored record whose \<open>enabled\<close> flag is true. When handles
  identify records, the handle of a stored disabled record is the handle of no entry.
\<close>

theorem list_users_enabled_only:
  assumes "\<not> DISCREET_LOGIN e"
  shows "\<exists>vms. list_users e st = Json 200 (ListJson vms)
     \<and> (\<forall>v \<in> set vms. \<exists>u \<in> snd ` set (storage st). enabled u \<and> v = toViewModel e u)
     \<and> (inj_on handle (snd ` set (storage st)) \<longrightarrow>
          (\<forall>u \<in> snd ` set (storage st). \<not> enabled u \<longrightarrow> handle u \<notin> vm_handle ` set vms))"
proof -
  let ?f = "\<lambda>k. startsWith k (KEY_PREFIX e)"
  let ?vms = "sort_key created_or_0 (map (toViewModel e) (filter enabled (values_where ?f (storage st))))"
  have eq: "list_users e st = Json 200 (ListJson ?vms)"
    using assms by (simp add: list_users_def)
  have only: "\<forall>v \<in> set ?vms. \<exists>u \<in> snd ` set (storage st). enabled u \<and> v = toViewModel e u"
    using listed_are_enabled by blast
  have never: "handle u \<notin> vm_handle ` set ?vms"
    if inj: "inj_on handle (snd ` set (storage st))"
      and u: "u \<in> snd ` set (storage st)" "\<not> enabled u" for u
  proof
    assume "handle u \<in> vm_handle ` set ?vms"
    then obtain v where v: "v \<in> set ?vms" "vm_handle v = handle u"
      unfolding image_iff by metis
    from only v(1) obtain u' where u': "u' \<in> snd ` set (storage st)" "enabled u'"
      "v = toViewModel e u'" by blast
    from u'(3) v(2) have h: "handle u' = handle u" by (simp add: toViewModel_def)
    from inj_onD [OF inj h u'(1) u(1)] have "u' = u" .
    with u(2) u'(2) show False by simp
  qed
  from eq only never show ?thesis by blast
qed

theorem list_users_enabled_only_witness:
  "list_users sample_env sample_state
     = Json 200 (ListJson [toViewModel sample_env bob, toViewModel sample_env alice])
   \<and> (\<exists>vms. list_users sample_env sample_state = Json 200 (ListJson vms)
        \<and> handle carol \<notin> vm_handle ` set vms)"
proof -
  have h: "\<not> DISCREET_LOGIN sample_env" by (simp add: sample_env_def)
  have inj: "inj_on handle (snd ` set (storage sample_state))"
    by (simp add: sample_state_def alice_def bob_def carol_def)
  have c: "carol \<in> snd ` set (storage sample_state)" "\<not> enabled carol"
    by (simp_all add: sample_state_def carol_def)
  from list_users_enabled_only [OF h, of sample_state] inj c
  have "\<exists>vms. list_users sample_env sample_state = Json 200 (ListJson vms)
        \<and> handle carol \<notin> vm_handle ` set vms"
    by blast
  moreover have "list_users sample_env sample_state
     = Json 200 (ListJson [toViewModel sample_env bob, toViewModel sample_env alice])"
    by (simp add: list_users_def sample_env_def sample_state_def values_where_def startsWith_def
        alice_def bob_def carol_def toViewModel_def created_or_0_def)
  ultimately show ?thesis by simp
qed

end
